theory Spec2Isabelle
  imports Main "HOL-Library.Multiset"
begin

section \<open>The message server: data model\<close>

text \<open>
  The message server keeps one module-level \<open>Map<string, Message[]>\<close> and serves three
  routes, \<open>POST /send\<close>, \<open>GET /recv\<close> and \<open>GET /health\<close>. Each handler is synchronous,
  so a request is one step on the map. A string is a list of code units below 256 (Basic
  Latin and Latin-1 Supplement; a \<open>char\<close> is the code unit of that number); on these strings
  \<open>toLowerCase\<close> and \<open>trim\<close> are the JavaScript methods of the same names. Clock readings are
  milliseconds since the epoch.
\<close>

text \<open>The interface \<open>Message\<close>; its field \<open>id\<close> is \<open>mid\<close> here.\<close>

record message =
  mid :: string
  content :: string
  recipient :: string
  timestamp :: nat

type_synonym store = "string \<rightharpoonup> message list"

text \<open>A parsed JSON request body; a number keeps its literal. \<open>JUndefined\<close> is a body that
  no parser filled in.\<close>

datatype jsval =
    JUndefined
  | JNull
  | JBool bool
  | JNum string
  | JStr string
  | JArr "jsval list"
  | JObj "(string \<times> jsval) list"

text \<open>A value of \<open>req.query\<close> as the query parser of the application yields it: the string
  of a parameter given once, or the array of the two or more strings of a parameter given
  several times (\<open>QArr a b cs\<close> is \<open>[a, b] @ cs\<close>). The application runs on the framework
  version whose body parser leaves an unparsed body \<open>undefined\<close> (its test of a request without
  a content type expects 500); the query parser of that version yields nothing else.\<close>

datatype qval =
    QStr string
  | QArr string string "string list"

text \<open>What a handler reads from its surroundings while it builds a message:
  \<open>Date.now()\<close>, the text of \<open>Math.random().toString(36)\<close>, and \<open>new Date()\<close>.\<close>

record env =
  now :: nat
  random36 :: string
  date :: nat

text \<open>A message as \<open>/recv\<close> reports it: id, content, timestamp.\<close>

datatype view = View string string nat

text \<open>The JSON answers by status. 400 and 500 carry \<open>error\<close> and \<open>message\<close>; 201 carries
  \<open>message\<close> and the \<open>id\<close>, \<open>recipient\<close> and \<open>timestamp\<close> of \<open>data\<close>; 200 carries \<open>message\<close>
  and the \<open>recipient\<close>, \<open>messages\<close> and \<open>count\<close> of \<open>data\<close>; the answer of \<open>/health\<close> carries
  \<open>status\<close>, \<open>message\<close>, \<open>endpoints\<close> and \<open>totalRecipients\<close>.\<close>

datatype response =
    Status400 string string
  | Status201 string string string nat
  | Status200 string string "view list" nat
  | Status500 string string
  | Healthy string string "string list" nat

section \<open>String operations\<close>

text \<open>Lower-casing of a code unit below 256: the capital letters are \<open>A\<close> to \<open>Z\<close> (65 to 90)
  and U+00C0 to U+00DE without the multiplication sign U+00D7 (192 to 222 without 215); each
  has its small letter 32 places further on. Every other code unit stays.\<close>

definition lower_char :: "char \<Rightarrow> char" where
  "lower_char c =
     (let n = (of_char c :: nat)
      in if (65 \<le> n \<and> n \<le> 90) \<or> (192 \<le> n \<and> n \<le> 222 \<and> n \<noteq> 215)
         then char_of (n + 32) else c)"

definition toLowerCase :: "string \<Rightarrow> string" where
  "toLowerCase s = map lower_char s"

text \<open>What \<open>trim\<close> strips, below 256: tab, line feed, vertical tab, form feed, carriage
  return (9 to 13), space (32) and no-break space U+00A0 (160).\<close>

definition is_white :: "char \<Rightarrow> bool" where
  "is_white c = (let n = (of_char c :: nat) in (9 \<le> n \<and> n \<le> 13) \<or> n = 32 \<or> n = 160)"

definition trim :: "string \<Rightarrow> string" where
  "trim s = rev (dropWhile is_white (rev (dropWhile is_white s)))"

definition substr :: "nat \<Rightarrow> nat \<Rightarrow> string \<Rightarrow> string" where
  "substr start len s = take len (drop start s)"

definition digit_char :: "nat \<Rightarrow> char" where
  "digit_char d = ''0123456789'' ! d"

fun toString :: "nat \<Rightarrow> string" where
  "toString n = (if n < 10 then [digit_char n]
                 else toString (n div 10) @ [digit_char (n mod 10)])"

declare toString.simps [simp del]

fun intercalate :: "string \<Rightarrow> string list \<Rightarrow> string" where
  "intercalate sep [] = []"
| "intercalate sep [x] = x"
| "intercalate sep (x # y # ys) = x @ sep @ intercalate sep (y # ys)"

text \<open>\<open>String(v)\<close> on a query value: a string is itself, an array is its elements joined by
  commas.\<close>

fun String :: "qval \<Rightarrow> string" where
  "String (QStr s) = s"
| "String (QArr a b cs) = intercalate '','' (a # b # cs)"

text \<open>Truthiness of a query value: only the empty string is falsy.\<close>

fun truthy :: "qval \<Rightarrow> bool" where
  "truthy (QStr s) = (s \<noteq> [])"
| "truthy (QArr a b cs) = True"

text \<open>Reading a property of the body as the destructuring does: \<open>None\<close> is the TypeError
  on \<open>undefined\<close> and \<open>null\<close>; a missing property is \<open>undefined\<close>; of duplicate keys the
  last one counts.\<close>

fun get_prop :: "jsval \<Rightarrow> string \<Rightarrow> jsval option" where
  "get_prop JUndefined k = None"
| "get_prop JNull k = None"
| "get_prop (JObj kvs) k = Some (case map_of (rev kvs) k of None \<Rightarrow> JUndefined | Some v \<Rightarrow> v)"
| "get_prop v k = Some JUndefined"

text \<open>The guard \<open>!x || typeof x !== 'string'\<close>: it lets through the non-empty strings
  only (a value that is no string fails the second test whatever its truthiness).\<close>

fun invalid_string :: "jsval \<Rightarrow> bool" where
  "invalid_string (JStr s) = (s = [])"
| "invalid_string v = True"

fun the_string :: "jsval \<Rightarrow> string" where
  "the_string (JStr s) = s"
| "the_string v = []"

section \<open>The handlers\<close>

definition generateMessageId :: "env \<Rightarrow> string" where
  "generateMessageId e = toString (now e) @ substr 2 9 (random36 e)"

definition newMessage :: "env \<Rightarrow> string \<Rightarrow> string \<Rightarrow> message" where
  "newMessage e r m =
     \<lparr> mid = generateMessageId e, content = m, recipient = toLowerCase r, timestamp = date e \<rparr>"

definition mailbox :: "store \<Rightarrow> string \<Rightarrow> message list" where
  "mailbox st k = (case st k of None \<Rightarrow> [] | Some ms \<Rightarrow> ms)"

text \<open>\<open>POST /send\<close>. The handler body runs in a \<open>try\<close>; a TypeError (destructuring a body
  that is \<open>undefined\<close> or \<open>null\<close>, or \<open>push\<close> on a missing entry) is caught and answered
  with 500. The entry is created empty when the key is new, then the message is pushed.\<close>

definition send_failed :: response where
  "send_failed = Status500 ''Internal server error'' ''Failed to send message''"

definition send :: "env \<Rightarrow> jsval \<Rightarrow> store \<Rightarrow> response \<times> store" where
  "send e body st =
     (case (get_prop body ''recipient'', get_prop body ''message'') of
        (Some r, Some m) \<Rightarrow>
          if invalid_string r then
            (Status400 ''Invalid recipient'' ''Recipient is required and must be a string'', st)
          else if invalid_string m then
            (Status400 ''Invalid message'' ''Message is required and must be a string'', st)
          else
            let msg = newMessage e (the_string r) (the_string m);
                st1 = (if st (recipient msg) = None then st(recipient msg \<mapsto> []) else st)
            in (case st1 (recipient msg) of
                  None \<Rightarrow> (send_failed, st1)
                | Some ms \<Rightarrow>
                    (Status201 ''Message sent successfully''
                       (mid msg) (recipient msg) (timestamp msg),
                     st1(recipient msg \<mapsto> ms @ [msg])))
      | _ \<Rightarrow> (send_failed, st))"

definition view_of :: "message \<Rightarrow> view" where
  "view_of m = View (mid m) (content m) (timestamp m)"

text \<open>\<open>GET /recv\<close>. The copy of the array that the handler returns is the list itself
  here; \<open>messages.delete\<close> removes the whole entry.\<close>

definition recv :: "qval option \<Rightarrow> store \<Rightarrow> response \<times> store" where
  "recv q st =
     (case q of
        None \<Rightarrow> (Status400 ''Invalid recipient'' ''Recipient parameter is required'', st)
      | Some v \<Rightarrow>
          if \<not> truthy v then
            (Status400 ''Invalid recipient'' ''Recipient parameter is required'', st)
          else
            let recipientStr = String v in
            if trim recipientStr = [] then
              (Status400 ''Invalid recipient'' ''Recipient parameter cannot be empty'', st)
            else
              let recipientKey = toLowerCase recipientStr;
                  recipientMessages = (case st recipientKey of None \<Rightarrow> [] | Some ms \<Rightarrow> ms)
              in if length recipientMessages = 0 then
                   (Status200 ''No messages found for recipient'' recipientKey [] 0, st)
                 else
                   let messagesToReturn = recipientMessages in
                   (Status200 ''Messages retrieved successfully'' recipientKey
                      (map view_of messagesToReturn) (length messagesToReturn),
                    st(recipientKey := None)))"

text \<open>\<open>GET /health\<close> reports \<open>messages.size\<close>, the number of keys of the map.\<close>

definition totalRecipients :: "store \<Rightarrow> nat" where
  "totalRecipients st = card (dom st)"

definition health :: "store \<Rightarrow> response \<times> store" where
  "health st =
     (Healthy ''healthy'' ''Message server is running'' [''POST /send'', ''GET /recv'']
        (totalRecipients st), st)"

section \<open>Requests and runs\<close>

datatype request = Send env jsval | Recv "qval option" | Health

fun handle :: "request \<Rightarrow> store \<Rightarrow> response \<times> store" where
  "handle (Send e body) st = send e body st"
| "handle (Recv q) st = recv q st"
| "handle Health st = health st"

fun run :: "request list \<Rightarrow> store \<Rightarrow> response list \<times> store" where
  "run [] st = ([], st)"
| "run (rq # rqs) st =
     (let (resp, st1) = handle rq st; (resps, st2) = run rqs st1 in (resp # resps, st2))"

definition final :: "request list \<Rightarrow> store \<Rightarrow> store" where
  "final rqs st = snd (run rqs st)"

definition responses :: "request list \<Rightarrow> store \<Rightarrow> response list" where
  "responses rqs st = fst (run rqs st)"

section \<open>Vocabulary of the properties\<close>

text \<open>The key a \<open>/recv\<close> query reaches past the two guards of the handler, if it does.\<close>

definition recv_key :: "qval option \<Rightarrow> string option" where
  "recv_key q =
     (case q of None \<Rightarrow> None
      | Some v \<Rightarrow> if truthy v \<and> trim (String v) \<noteq> [] then Some (toLowerCase (String v)) else None)"

text \<open>The message a request files (none when \<open>/send\<close> rejects it) and the key a request
  drains.\<close>

fun sent :: "request \<Rightarrow> message list" where
  "sent (Send e body) =
     (case (get_prop body ''recipient'', get_prop body ''message'') of
        (Some r, Some m) \<Rightarrow>
          if \<not> invalid_string r \<and> \<not> invalid_string m
          then [newMessage e (the_string r) (the_string m)] else []
      | _ \<Rightarrow> [])"
| "sent (Recv q) = []"
| "sent Health = []"

fun drains :: "request \<Rightarrow> string option" where
  "drains (Recv q) = recv_key q"
| "drains rq = None"

definition sent_to :: "string \<Rightarrow> request list \<Rightarrow> message list" where
  "sent_to k rqs = filter (\<lambda>m. recipient m = k) (concat (map sent rqs))"

text \<open>The messages that the responses of a run report for a key.\<close>

fun views_for :: "string \<Rightarrow> response \<Rightarrow> view list" where
  "views_for k (Status200 t k' vs n) = (if k' = k then vs else [])"
| "views_for k r = []"

definition delivered :: "string \<Rightarrow> request list \<Rightarrow> store \<Rightarrow> view list" where
  "delivered k rqs st = concat (map (views_for k) (responses rqs st))"

definition nonempty_entries :: "store \<Rightarrow> bool" where
  "nonempty_entries st = (\<forall>k ms. st k = Some ms \<longrightarrow> ms \<noteq> [])"

definition filed_by_recipient :: "store \<Rightarrow> bool" where
  "filed_by_recipient st = (\<forall>k ms. st k = Some ms \<longrightarrow> (\<forall>m \<in> set ms. recipient m = k))"







text \<open>The body \<open>{ recipient: r, message: c }\<close>, and a property that is a non-empty string.\<close>

definition body_of :: "string \<Rightarrow> string \<Rightarrow> jsval" where
  "body_of r c = JObj [(''recipient'', JStr r), (''message'', JStr c)]"

definition nonempty_string :: "jsval option \<Rightarrow> bool" where
  "nonempty_string v = (case v of Some (JStr s) \<Rightarrow> s \<noteq> [] | _ \<Rightarrow> False)"

text \<open>A send given by its surroundings, recipient and content; what \<open>/recv\<close> reports of it;
  and that it is accepted and filed under a key.\<close>

definition send_of :: "env \<times> string \<times> string \<Rightarrow> request" where
  "send_of x = (case x of (e, r, c) \<Rightarrow> Send e (body_of r c))"

definition view_sent :: "env \<times> string \<times> string \<Rightarrow> view" where
  "view_sent x = (case x of (e, r, c) \<Rightarrow> View (generateMessageId e) c (date e))"

definition valid_for :: "string \<Rightarrow> env \<times> string \<times> string \<Rightarrow> bool" where
  "valid_for k x = (case x of (e, r, c) \<Rightarrow> r \<noteq> [] \<and> c \<noteq> [] \<and> toLowerCase r = k)"

subsection \<open>Sample values\<close>

definition env1 :: env where
  "env1 = \<lparr> now = 1700000000123, random36 = ''0.4fzyo82mvyr'', date = 1700000000124 \<rparr>"

definition env2 :: env where
  "env2 = \<lparr> now = 1700000000123, random36 = ''0.4fzyo82mvzz'', date = 1700000000125 \<rparr>"

definition env3 :: env where
  "env3 = \<lparr> now = 1700000000123, random36 = ''0.zzzzzzzzzzz'', date = 1700000000126 \<rparr>"

definition msg1 :: message where
  "msg1 = \<lparr> mid = ''17000000001234fzyo82mv'', content = ''hi'', recipient = ''bob'',
            timestamp = 1700000000124 \<rparr>"

definition store1 :: store where
  "store1 = [''bob'' \<mapsto> [msg1]]"

section \<open>Auxiliary facts\<close>

lemma trim_empty_iff: "trim s = [] \<longleftrightarrow> (\<forall>c \<in> set s. is_white c)"
proof
  assume "trim s = []"
  then have all: "\<forall>x \<in> set (dropWhile is_white s). is_white x"
    by (simp add: trim_def dropWhile_eq_Nil_conv)
  have "dropWhile is_white s = []"
  proof (rule ccontr)
    assume ne: "dropWhile is_white s \<noteq> []"
    then have "\<not> is_white (hd (dropWhile is_white s))" by (rule hd_dropWhile)
    moreover from ne all have "is_white (hd (dropWhile is_white s))" by simp
    ultimately show False by simp
  qed
  then show "\<forall>c \<in> set s. is_white c" by (simp add: dropWhile_eq_Nil_conv)
next
  assume "\<forall>c \<in> set s. is_white c"
  then have d: "dropWhile is_white s = []" by (simp only: dropWhile_eq_Nil_conv)
  show "trim s = []" unfolding trim_def d by simp
qed

lemma send_accepted:
  assumes "get_prop body ''recipient'' = Some (JStr r)" "get_prop body ''message'' = Some (JStr m)"
    "r \<noteq> []" "m \<noteq> []"
  shows "send e body st =
    (Status201 ''Message sent successfully'' (generateMessageId e) (toLowerCase r) (date e),
     st(toLowerCase r \<mapsto> mailbox st (toLowerCase r) @ [newMessage e r m]))"
  using assms by (auto simp: send_def newMessage_def mailbox_def Let_def split: option.splits)

lemma send_store:
  "snd (send e body st) =
     (case sent (Send e body) of [] \<Rightarrow> st
      | msg # _ \<Rightarrow> st(recipient msg \<mapsto> mailbox st (recipient msg) @ [msg]))"
  by (auto simp: send_def mailbox_def Let_def split: option.splits)

lemma recv_accepted:
  assumes "recv_key q = Some k"
  shows "recv q st =
    (Status200 (if mailbox st k = [] then ''No messages found for recipient''
                else ''Messages retrieved successfully'')
       k (map view_of (mailbox st k)) (length (mailbox st k)),
     if mailbox st k = [] then st else st(k := None))"
  using assms by (auto simp: recv_def recv_key_def mailbox_def Let_def split: option.splits if_splits)

lemma recv_rejected:
  assumes "recv_key q = None"
  shows "\<exists>t. recv q st = (Status400 ''Invalid recipient'' t, st)"
  using assms by (auto simp: recv_def recv_key_def Let_def split: option.splits if_splits)

lemma mailbox_handle:
  "mailbox (snd (handle rq st)) k =
     (if drains rq = Some k then [] else mailbox st k @ filter (\<lambda>m. recipient m = k) (sent rq))"
proof (cases rq)
  case (Send e body)
  then show ?thesis
    by (auto simp: send_store mailbox_def split: list.splits option.splits if_splits)
next
  case (Recv q)
  then show ?thesis
  proof (cases "recv_key q")
    case None
    with Recv recv_rejected[OF None, of st] show ?thesis by auto
  next
    case (Some k')
    with Recv show ?thesis by (auto simp: recv_accepted mailbox_def split: option.splits)
  qed
next
  case Health
  then show ?thesis by (simp add: health_def)
qed

lemma views_handle:
  "views_for k (fst (handle rq st)) =
     (if drains rq = Some k then map view_of (mailbox st k) else [])"
proof (cases rq)
  case (Send e body)
  then show ?thesis
    by (auto simp: send_def send_failed_def Let_def split: option.splits)
next
  case (Recv q)
  then show ?thesis
  proof (cases "recv_key q")
    case None
    with Recv recv_rejected[OF None, of st] show ?thesis by auto
  next
    case (Some k')
    with Recv show ?thesis by (auto simp: recv_accepted)
  qed
next
  case Health
  then show ?thesis by (simp add: health_def)
qed

lemma final_Nil: "final [] st = st"
  by (simp add: final_def)

lemma final_Cons: "final (rq # rqs) st = final rqs (snd (handle rq st))"
  by (simp add: final_def split: prod.splits)

lemma responses_Nil: "responses [] st = []"
  by (simp add: responses_def)

lemma responses_Cons:
  "responses (rq # rqs) st = fst (handle rq st) # responses rqs (snd (handle rq st))"
  by (simp add: responses_def split: prod.splits)

lemma final_append: "final (rqs @ rqs') st = final rqs' (final rqs st)"
  by (induction rqs arbitrary: st) (simp_all add: final_Nil final_Cons)

lemma sent_to_Nil: "sent_to k [] = []"
  by (simp add: sent_to_def)

lemma sent_to_Cons: "sent_to k (rq # rqs) = filter (\<lambda>m. recipient m = k) (sent rq) @ sent_to k rqs"
  by (simp add: sent_to_def)

lemma delivered_Nil: "delivered k [] st = []"
  by (simp add: delivered_def responses_Nil)

lemma delivered_Cons:
  "delivered k (rq # rqs) st =
     views_for k (fst (handle rq st)) @ delivered k rqs (snd (handle rq st))"
  by (simp add: delivered_def responses_Cons)

lemma mailbox_final_no_drain:
  "\<forall>rq \<in> set rqs. drains rq \<noteq> Some k \<Longrightarrow>
     mailbox (final rqs st) k = mailbox st k @ sent_to k rqs"
proof (induction rqs arbitrary: st)
  case Nil
  then show ?case by (simp add: final_Nil sent_to_Nil)
next
  case (Cons rq rqs)
  then show ?case
    by (simp add: final_Cons sent_to_Cons mailbox_handle)
qed

lemma conservation:
  "image_mset view_of (mset (mailbox st k)) + image_mset view_of (mset (sent_to k rqs)) =
     mset (delivered k rqs st) + image_mset view_of (mset (mailbox (final rqs st) k))"
proof (induction rqs arbitrary: st)
  case Nil
  then show ?case by (simp add: final_Nil sent_to_Nil delivered_Nil)
next
  case (Cons rq rqs)
  show ?case
  proof (cases "drains rq = Some k")
    case True
    then have "sent rq = []" by (cases rq) simp_all
    with True Cons.IH [of "snd (handle rq st)"] show ?thesis
      by (simp add: final_Cons sent_to_Cons delivered_Cons mailbox_handle views_handle)
  next
    case False
    with Cons.IH [of "snd (handle rq st)"] show ?thesis
      by (simp add: final_Cons sent_to_Cons delivered_Cons mailbox_handle views_handle ac_simps)
  qed
qed

lemma handle_store:
  "snd (handle rq st) =
     (case drains rq of
        Some k \<Rightarrow> if mailbox st k = [] then st else st(k := None)
      | None \<Rightarrow> (case sent rq of [] \<Rightarrow> st
                 | msg # _ \<Rightarrow> st(recipient msg \<mapsto> mailbox st (recipient msg) @ [msg])))"
proof (cases rq)
  case (Send e body)
  then show ?thesis by (simp add: send_store)
next
  case (Recv q)
  then show ?thesis
  proof (cases "recv_key q")
    case None
    with Recv recv_rejected[OF None, of st] show ?thesis by auto
  next
    case (Some k')
    with Recv show ?thesis by (simp add: recv_accepted)
  qed
next
  case Health
  then show ?thesis by (simp add: health_def)
qed

lemma nonempty_entries_handle:
  "nonempty_entries st \<Longrightarrow> nonempty_entries (snd (handle rq st))"
  by (auto simp: handle_store nonempty_entries_def split: option.splits list.splits if_splits)

lemma filed_by_recipient_handle:
  "filed_by_recipient st \<Longrightarrow> filed_by_recipient (snd (handle rq st))"
  by (auto simp: handle_store filed_by_recipient_def mailbox_def
      split: option.splits list.splits if_splits) metis

lemma finite_dom_handle:
  "finite (dom st) \<Longrightarrow> finite (dom (snd (handle rq st)))"
  by (auto simp: handle_store split: option.splits list.splits if_splits)

lemma nonempty_entries_final:
  "nonempty_entries st \<Longrightarrow> nonempty_entries (final rqs st)"
  by (induction rqs arbitrary: st) (simp_all add: final_Nil final_Cons nonempty_entries_handle)

lemma filed_by_recipient_final:
  "filed_by_recipient st \<Longrightarrow> filed_by_recipient (final rqs st)"
  by (induction rqs arbitrary: st) (simp_all add: final_Nil final_Cons filed_by_recipient_handle)

lemma finite_dom_final:
  "finite (dom st) \<Longrightarrow> finite (dom (final rqs st))"
  by (induction rqs arbitrary: st) (simp_all add: final_Nil final_Cons finite_dom_handle)

lemma dom_nonempty_entries:
  "nonempty_entries st \<Longrightarrow> dom st = {k. mailbox st k \<noteq> []}"
  by (auto simp: nonempty_entries_def mailbox_def split: option.splits)







lemma digit_char_inj:
  assumes "a < 10" "b < 10" "digit_char a = digit_char b"
  shows "a = b"
proof -
  have "distinct ''0123456789''" by simp
  moreover have "a < length ''0123456789''" "b < length ''0123456789''"
    using assms(1,2) by simp_all
  ultimately have "(''0123456789'' ! a = ''0123456789'' ! b) = (a = b)"
    by (rule nth_eq_iff_index_eq)
  with assms(3) show ?thesis by (simp add: digit_char_def)
qed

lemma toString_not_Nil: "toString n \<noteq> []"
  by (subst toString.simps) simp

lemma toString_inj: "toString n = toString m \<Longrightarrow> n = m"
proof (induction n arbitrary: m rule: toString.induct)
  case (1 n)
  show ?case
  proof (cases "n < 10")
    case True
    note n = this
    show ?thesis
    proof (cases "m < 10")
      case True
      with n "1.prems" show ?thesis
        by (simp add: toString.simps [of n] toString.simps [of m] digit_char_inj)
    next
      case False
      with n "1.prems" toString_not_Nil [of "m div 10"] show ?thesis
        by (simp add: toString.simps [of n] toString.simps [of m])
    qed
  next
    case False
    note n = this
    show ?thesis
    proof (cases "m < 10")
      case True
      with n "1.prems" toString_not_Nil [of "n div 10"] show ?thesis
        by (simp add: toString.simps [of n] toString.simps [of m])
    next
      case False
      with n "1.prems" have eq: "toString (n div 10) = toString (m div 10)"
        and d: "digit_char (n mod 10) = digit_char (m mod 10)"
        by (simp_all add: toString.simps [of n] toString.simps [of m])
      from "1.IH" [OF n eq] have "n div 10 = m div 10" .
      moreover from d have "n mod 10 = m mod 10"
        by (rule digit_char_inj [rotated 2]) simp_all
      ultimately show ?thesis by (metis div_mult_mod_eq)
    qed
  qed
qed

lemma get_prop_body_of:
  "get_prop (body_of r c) ''recipient'' = Some (JStr r)"
  "get_prop (body_of r c) ''message'' = Some (JStr c)"
  by (simp_all add: body_of_def)

lemma send_body_of:
  assumes "r \<noteq> []" "c \<noteq> []"
  shows "send e (body_of r c) st =
    (Status201 ''Message sent successfully'' (generateMessageId e) (toLowerCase r) (date e),
     st(toLowerCase r \<mapsto> mailbox st (toLowerCase r) @ [newMessage e r c]))"
  using assms by (rule send_accepted [OF get_prop_body_of])

lemma sent_body_of:
  "r \<noteq> [] \<Longrightarrow> c \<noteq> [] \<Longrightarrow> sent (Send e (body_of r c)) = [newMessage e r c]"
  by (simp add: get_prop_body_of)

lemma recipient_newMessage: "recipient (newMessage e r c) = toLowerCase r"
  by (simp add: newMessage_def)

lemma view_of_newMessage: "view_of (newMessage e r c) = View (generateMessageId e) c (date e)"
  by (simp add: newMessage_def view_of_def)

lemma view_of_fields: "view_of = (\<lambda>m. View (mid m) (content m) (timestamp m))"
  by (simp add: fun_eq_iff view_of_def)

lemma comma_in_array: "CHR '','' \<in> set (String (QArr a b cs))"
  by simp

lemma array_not_blank: "trim (String (QArr a b cs)) \<noteq> []"
proof
  assume "trim (String (QArr a b cs)) = []"
  then have "is_white CHR '',''"
    unfolding trim_empty_iff using comma_in_array [of a b cs] by blast
  then show False by (simp add: is_white_def)
qed

lemma recv_key_QArr: "recv_key (Some (QArr a b cs)) = Some (toLowerCase (String (QArr a b cs)))"
  using array_not_blank [of a b cs] by (simp add: recv_key_def del: String.simps)

lemma mailbox_upd: "mailbox (st(k \<mapsto> ms)) k' = (if k' = k then ms else mailbox st k')"
  by (simp add: mailbox_def)

lemma mailbox_del: "mailbox (st(k := None)) k' = (if k' = k then [] else mailbox st k')"
  by (simp add: mailbox_def)

lemma mailbox_empty: "mailbox Map.empty k = []"
  by (simp add: mailbox_def)

lemma recv_key_QStr: "trim r \<noteq> [] \<Longrightarrow> recv_key (Some (QStr r)) = Some (toLowerCase r)"
  by (auto simp: recv_key_def trim_def)

lemma mailbox_recv: "recv_key q = Some k \<Longrightarrow> mailbox (snd (recv q st)) k = []"
  by (simp add: recv_accepted mailbox_del)

lemma delivered_after_drain:
  assumes "mailbox st k = []"
  shows "mset (delivered k rqs st) \<subseteq># image_mset view_of (mset (sent_to k rqs))"
proof -
  from conservation [of st k rqs] assms
  have "image_mset view_of (mset (sent_to k rqs)) =
        mset (delivered k rqs st) + image_mset view_of (mset (mailbox (final rqs st) k))"
    by simp
  then show ?thesis by simp
qed

lemma nonempty_string_iff: "nonempty_string v \<longleftrightarrow> (\<exists>s. v = Some (JStr s) \<and> s \<noteq> [])"
  by (auto simp: nonempty_string_def split: option.splits jsval.splits)

lemma invalid_string_iff: "invalid_string v \<longleftrightarrow> \<not> nonempty_string (Some v)"
  by (cases v) (simp_all add: nonempty_string_def)

lemma totalRecipients_reachable:
  "totalRecipients (final rqs Map.empty) = card {k. mailbox (final rqs Map.empty) k \<noteq> []}"
proof -
  have "nonempty_entries Map.empty" by (simp add: nonempty_entries_def)
  then have "nonempty_entries (final rqs Map.empty)" by (rule nonempty_entries_final)
  then show ?thesis by (simp add: totalRecipients_def dom_nonempty_entries)
qed

lemma valid_string_cases: "\<not> invalid_string v \<Longrightarrow> \<exists>s. v = JStr s \<and> s \<noteq> []"
  by (cases v) simp_all

lemma filed_by_recipient_mailbox:
  "filed_by_recipient st \<Longrightarrow> m \<in> set (mailbox st k) \<Longrightarrow> recipient m = k"
  by (cases "st k") (auto simp: filed_by_recipient_def mailbox_def)

lemma sends_only:
  "list_all (valid_for k) xs \<Longrightarrow>
     map view_of (sent_to k (map send_of xs)) = map view_sent xs
     \<and> (\<forall>rq \<in> set (map send_of xs). drains rq \<noteq> Some k)"
proof (induction xs)
  case Nil
  then show ?case by (simp add: sent_to_Nil)
next
  case (Cons x xs)
  obtain e r c where x: "x = (e, r, c)" by (cases x) auto
  with Cons show ?case
    by (simp add: sent_to_Cons send_of_def view_sent_def valid_for_def sent_body_of
        recipient_newMessage view_of_newMessage del: sent.simps)
qed

lemma id_env1: "generateMessageId env1 = ''17000000001234fzyo82mv''"
  by (simp add: generateMessageId_def env1_def substr_def toString.simps digit_char_def)

lemma id_env2: "generateMessageId env2 = ''17000000001234fzyo82mv''"
  by (simp add: generateMessageId_def env2_def substr_def toString.simps digit_char_def)

lemma key_Bob: "recv_key (Some (QStr ''Bob'')) = Some ''bob''"
  by code_simp

lemma key_BOB: "recv_key (Some (QStr ''BOB'')) = Some ''bob''"
  by code_simp

lemma key_ALICE: "recv_key (Some (QStr ''ALICE'')) = Some ''alice''"
  by code_simp

lemma lower_Bob: "toLowerCase ''Bob'' = ''bob''"
  by code_simp

lemma lower_BOB: "toLowerCase ''BOB'' = ''bob''"
  by code_simp

lemma lower_bob: "toLowerCase ''bob'' = ''bob''"
  by code_simp

lemma lower_Alice: "toLowerCase ''Alice'' = ''alice''"
  by code_simp

lemma mailbox_store1: "mailbox store1 ''bob'' = [msg1]"
  by (simp add: mailbox_def store1_def)

lemma view_msg1: "view_of msg1 = View ''17000000001234fzyo82mv'' ''hi'' 1700000000124"
  by (simp add: view_of_def msg1_def)

lemma lower_alice: "toLowerCase ''alice'' = ''alice''"
  by code_simp

lemma date_env1: "date env1 = 1700000000124"
  by (simp add: env1_def)

lemma date_env2: "date env2 = 1700000000125"
  by (simp add: env2_def)

section \<open>The properties\<close>

text \<open>
  Claim C1. A \<open>/recv\<close> that reaches key \<open>k\<close> returns exactly the messages queued under \<open>k\<close>:
  the id, content and timestamp of each, in order, and their count. It removes exactly those:
  the mailbox of \<open>k\<close> is empty afterwards and every other key is untouched. A receive on the
  same key right after it finds nothing. Over any run that starts in a store \<open>st\<close>, each
  message queued under \<open>k\<close> or sent to \<open>k\<close> during the run is either reported once by a receive
  of the run or still queued at its end; so what later receives report for the drained key
  was sent after the drain.
\<close>

theorem recv_destructive:
  assumes "recv_key q = Some k"
  shows "recv q st =
           (Status200 (if mailbox st k = [] then ''No messages found for recipient''
                       else ''Messages retrieved successfully'')
              k (map (\<lambda>m. View (mid m) (content m) (timestamp m)) (mailbox st k))
              (length (mailbox st k)),
            if mailbox st k = [] then st else st(k := None))
         \<and> mailbox (snd (recv q st)) k = []
         \<and> (\<forall>k'. k' \<noteq> k \<longrightarrow> snd (recv q st) k' = st k')
         \<and> (\<forall>q'. recv_key q' = Some k \<longrightarrow>
               fst (recv q' (snd (recv q st))) =
                 Status200 ''No messages found for recipient'' k [] 0)
         \<and> (\<forall>rqs. image_mset (\<lambda>m. View (mid m) (content m) (timestamp m)) (mset (mailbox st k))
                     + image_mset (\<lambda>m. View (mid m) (content m) (timestamp m))
                         (mset (sent_to k rqs))
                   = mset (delivered k rqs st)
                     + image_mset (\<lambda>m. View (mid m) (content m) (timestamp m))
                         (mset (mailbox (final rqs st) k)))
         \<and> (\<forall>rqs. mset (delivered k rqs (snd (recv q st)))
                     \<subseteq># image_mset (\<lambda>m. View (mid m) (content m) (timestamp m))
                           (mset (sent_to k rqs)))"
proof (intro conjI allI impI)
  show "recv q st =
           (Status200 (if mailbox st k = [] then ''No messages found for recipient''
                       else ''Messages retrieved successfully'')
              k (map (\<lambda>m. View (mid m) (content m) (timestamp m)) (mailbox st k))
              (length (mailbox st k)),
            if mailbox st k = [] then st else st(k := None))"
    using recv_accepted [OF assms, of st] unfolding view_of_fields .
  show empty: "mailbox (snd (recv q st)) k = []"
    using assms by (rule mailbox_recv)
  show "snd (recv q st) k' = st k'" if "k' \<noteq> k" for k'
    using that assms by (simp add: recv_accepted)
  show "fst (recv q' (snd (recv q st))) = Status200 ''No messages found for recipient'' k [] 0"
    if "recv_key q' = Some k" for q'
    using that empty by (simp add: recv_accepted [of q' k])
  show "image_mset (\<lambda>m. View (mid m) (content m) (timestamp m)) (mset (mailbox st k))
          + image_mset (\<lambda>m. View (mid m) (content m) (timestamp m)) (mset (sent_to k rqs))
      = mset (delivered k rqs st)
          + image_mset (\<lambda>m. View (mid m) (content m) (timestamp m))
              (mset (mailbox (final rqs st) k))"
    for rqs
    using conservation [of st k rqs] unfolding view_of_fields .
  show "mset (delivered k rqs (snd (recv q st)))
      \<subseteq># image_mset (\<lambda>m. View (mid m) (content m) (timestamp m)) (mset (sent_to k rqs))"
    for rqs
    using delivered_after_drain [OF empty, of rqs] unfolding view_of_fields .
qed

theorem recv_destructive_witness:
  "recv_key (Some (QStr ''Bob'')) = Some ''bob''
   \<and> recv (Some (QStr ''Bob'')) store1 =
       (Status200 ''Messages retrieved successfully'' ''bob''
          [View ''17000000001234fzyo82mv'' ''hi'' 1700000000124] 1, store1(''bob'' := None))
   \<and> snd (recv (Some (QStr ''Bob'')) store1) ''carol'' = store1 ''carol''
   \<and> fst (recv (Some (QStr ''BOB'')) (snd (recv (Some (QStr ''Bob'')) store1))) =
       Status200 ''No messages found for recipient'' ''bob'' [] 0"
proof -
  note drained = recv_destructive [OF key_Bob, of store1]
  note d1 = drained [THEN conjunct1]
  note d3 = drained [THEN conjunct2, THEN conjunct2, THEN conjunct1, rule_format]
  note d4 = drained [THEN conjunct2, THEN conjunct2, THEN conjunct2, THEN conjunct1, rule_format]
  from d1 have a: "recv (Some (QStr ''Bob'')) store1 =
       (Status200 ''Messages retrieved successfully'' ''bob''
          [View ''17000000001234fzyo82mv'' ''hi'' 1700000000124] 1, store1(''bob'' := None))"
    by (simp add: mailbox_store1 msg1_def)
  have b: "snd (recv (Some (QStr ''Bob'')) store1) ''carol'' = store1 ''carol''"
    by (rule d3) simp
  have c: "fst (recv (Some (QStr ''BOB'')) (snd (recv (Some (QStr ''Bob'')) store1))) =
       Status200 ''No messages found for recipient'' ''bob'' [] 0"
    by (rule d4) (rule key_BOB)
  show ?thesis by (intro conjI key_Bob a b c)
qed

text \<open>
  Claim C2, amended. \<open>/send\<close> compares its two fields with the empty string and does not
  trim them. A request whose recipient or message is missing, is no string or is the empty
  string is answered with an error and leaves the store as it was; hence only a request whose
  recipient and message are non-empty strings changes the store. A request with a recipient
  that is not blank and a non-empty message changes the store, also when the message is
  white space only.
\<close>

theorem send_validation_boundary:
  "(\<not> (nonempty_string (get_prop body ''recipient'') \<and> nonempty_string (get_prop body ''message''))
      \<longrightarrow> snd (send e body st) = st
          \<and> (\<exists>a b. fst (send e body st) = Status400 a b \<or> fst (send e body st) = Status500 a b))
   \<and> (snd (send e body st) \<noteq> st
      \<longrightarrow> nonempty_string (get_prop body ''recipient'') \<and> nonempty_string (get_prop body ''message''))
   \<and> (trim r \<noteq> [] \<and> c \<noteq> [] \<longrightarrow> snd (send e (body_of r c) st) \<noteq> st)"
proof -
  have rejected: "snd (send e body st) = st
      \<and> (\<exists>a b. fst (send e body st) = Status400 a b \<or> fst (send e body st) = Status500 a b)"
    if "\<not> (nonempty_string (get_prop body ''recipient'') \<and> nonempty_string (get_prop body ''message''))"
    using that
    by (auto simp: send_def send_failed_def invalid_string_iff Let_def split: option.splits)
  have accepted: "snd (send e (body_of r c) st) \<noteq> st" if "trim r \<noteq> [] \<and> c \<noteq> []"
  proof -
    from that have "r \<noteq> []" "c \<noteq> []" by (auto simp: trim_def)
    then have "snd (send e (body_of r c) st) (toLowerCase r) \<noteq> st (toLowerCase r)"
      by (auto simp: send_body_of mailbox_def split: option.splits)
    then show ?thesis by auto
  qed
  from rejected accepted show ?thesis by blast
qed

theorem send_validation_boundary_witness:
  "\<not> nonempty_string (get_prop (body_of [] ''hi'') ''recipient'')
   \<and> snd (send env1 (body_of [] ''hi'') store1) = store1
   \<and> trim ''bob'' \<noteq> []
   \<and> snd (send env1 (body_of ''bob'' '' '') store1) \<noteq> store1"
proof -
  have n: "\<not> nonempty_string (get_prop (body_of [] ''hi'') ''recipient'')"
    by (simp add: get_prop_body_of nonempty_string_def)
  have t: "trim ''bob'' \<noteq> []" by code_simp
  note rejected = send_validation_boundary [of "body_of [] ''hi''" env1 store1, THEN conjunct1, rule_format]
  note accepted = send_validation_boundary [of _ env1 store1 "''bob''" "'' ''", THEN conjunct2, THEN conjunct2, rule_format]
  from n have a: "snd (send env1 (body_of [] ''hi'') store1) = store1"
    using rejected by simp
  from t have b: "snd (send env1 (body_of ''bob'' '' '') store1) \<noteq> store1"
    using accepted by simp
  show ?thesis by (intro conjI n a t b)
qed

text \<open>
  The message \<open>' '\<close> is empty after trimming, and sending it to \<open>bob\<close> changes the store.
\<close>

theorem send_blank_content_counterexample:
  "trim '' '' = []
   \<and> snd (send env1 (JObj [(''recipient'', JStr ''bob''), (''message'', JStr '' '')]) Map.empty)
       \<noteq> Map.empty"
proof
  show "trim '' '' = []" by code_simp
  have "send env1 (body_of ''bob'' '' '') Map.empty =
    (Status201 ''Message sent successfully'' (generateMessageId env1) (toLowerCase ''bob'') (date env1),
     [toLowerCase ''bob'' \<mapsto> mailbox Map.empty (toLowerCase ''bob'') @ [newMessage env1 ''bob'' '' '']])"
    by (rule send_body_of) simp_all
  then have "snd (send env1 (body_of ''bob'' '' '') Map.empty) (toLowerCase ''bob'') \<noteq> None"
    by simp
  then have "snd (send env1 (body_of ''bob'' '' '') Map.empty) \<noteq> Map.empty"
    by auto
  then show "snd (send env1 (JObj [(''recipient'', JStr ''bob''), (''message'', JStr '' '')])
      Map.empty) \<noteq> Map.empty"
    unfolding body_of_def .
qed




text \<open>
  A recipient of white space only is not empty: \<open>/send\<close> files the message under it, and
  \<open>/recv\<close> answers 400 to the same name.
\<close>

lemma blank_recipient_filed_and_refused:
  "send env1 (body_of '' '' ''hi'') Map.empty =
     (Status201 ''Message sent successfully'' ''17000000001234fzyo82mv'' '' '' 1700000000124,
      ['' '' \<mapsto> [newMessage env1 '' '' ''hi'']])
   \<and> recv (Some (QStr '' '')) ['' '' \<mapsto> [newMessage env1 '' '' ''hi'']] =
       (Status400 ''Invalid recipient'' ''Recipient parameter cannot be empty'',
        ['' '' \<mapsto> [newMessage env1 '' '' ''hi'']])"
proof
  have l: "toLowerCase '' '' = '' ''" by code_simp
  show "send env1 (body_of '' '' ''hi'') Map.empty =
     (Status201 ''Message sent successfully'' ''17000000001234fzyo82mv'' '' '' 1700000000124,
      ['' '' \<mapsto> [newMessage env1 '' '' ''hi'']])"
    by (simp add: send_body_of l id_env1 date_env1 mailbox_empty)
  have t: "trim '' '' = []" by code_simp
  show "recv (Some (QStr '' '')) ['' '' \<mapsto> [newMessage env1 '' '' ''hi'']] =
       (Status400 ''Invalid recipient'' ''Recipient parameter cannot be empty'',
        ['' '' \<mapsto> [newMessage env1 '' '' ''hi'']])"
    by (simp add: recv_def t Let_def)
qed

text \<open>
  Claim C4. After a run in which no request drains key \<open>k\<close>, a \<open>/recv\<close> on \<open>k\<close> reports what was
  queued before the run followed by the messages the run sent to \<open>k\<close>, in the order of
  sending. In particular, after accepted sends \<open>m1, ..., mn\<close> to \<open>k\<close> it reports the queued
  messages followed by \<open>m1, ..., mn\<close> in that order.
\<close>

theorem arrival_order:
  "(recv_key q = Some k \<and> (\<forall>rq \<in> set rqs. drains rq \<noteq> Some k) \<longrightarrow>
      fst (recv q (final rqs st)) =
           Status200 (if mailbox st k @ sent_to k rqs = [] then ''No messages found for recipient''
                      else ''Messages retrieved successfully'')
             k (map view_of (mailbox st k @ sent_to k rqs))
             (length (mailbox st k @ sent_to k rqs)))
   \<and> (recv_key q = Some k \<and> list_all (valid_for k) xs \<and> xs \<noteq> [] \<longrightarrow>
      fst (recv q (final (map send_of xs) st)) =
           Status200 ''Messages retrieved successfully'' k
             (map view_of (mailbox st k) @ map view_sent xs) (length (mailbox st k) + length xs))"
proof (intro conjI impI)
  assume "recv_key q = Some k \<and> (\<forall>rq \<in> set rqs. drains rq \<noteq> Some k)"
  then show "fst (recv q (final rqs st)) =
           Status200 (if mailbox st k @ sent_to k rqs = [] then ''No messages found for recipient''
                      else ''Messages retrieved successfully'')
             k (map view_of (mailbox st k @ sent_to k rqs))
             (length (mailbox st k @ sent_to k rqs))"
    by (simp add: recv_accepted mailbox_final_no_drain)
next
  assume a: "recv_key q = Some k \<and> list_all (valid_for k) xs \<and> xs \<noteq> []"
  then have v: "map view_of (sent_to k (map send_of xs)) = map view_sent xs"
    and d: "\<forall>rq \<in> set (map send_of xs). drains rq \<noteq> Some k"
    using sends_only [of k xs] by simp_all
  from v have "length (map view_of (sent_to k (map send_of xs))) = length (map view_sent xs)"
    by simp
  then have l: "length (sent_to k (map send_of xs)) = length xs" by simp
  with a have ne: "sent_to k (map send_of xs) \<noteq> []" by auto
  from a d v l ne show "fst (recv q (final (map send_of xs) st)) =
           Status200 ''Messages retrieved successfully'' k
             (map view_of (mailbox st k) @ map view_sent xs) (length (mailbox st k) + length xs)"
    by (simp add: recv_accepted mailbox_final_no_drain)
qed

theorem arrival_order_witness:
  "recv_key (Some (QStr ''Bob'')) = Some ''bob''
   \<and> list_all (valid_for ''bob'') [(env1, ''bob'', ''m1''), (env2, ''BOB'', ''m2'')]
   \<and> fst (recv (Some (QStr ''Bob''))
            (final [Send env1 (body_of ''bob'' ''m1''), Send env2 (body_of ''BOB'' ''m2'')] Map.empty)) =
       Status200 ''Messages retrieved successfully'' ''bob''
         [View ''17000000001234fzyo82mv'' ''m1'' 1700000000124,
          View ''17000000001234fzyo82mv'' ''m2'' 1700000000125] 2
   \<and> drains Health \<noteq> Some ''bob'' \<and> drains (Recv (Some (QStr ''ALICE''))) \<noteq> Some ''bob''
   \<and> fst (recv (Some (QStr ''Bob'')) (final [Health, Recv (Some (QStr ''ALICE''))] store1)) =
       Status200 ''Messages retrieved successfully'' ''bob''
         [View ''17000000001234fzyo82mv'' ''hi'' 1700000000124] 1"
proof -
  have v: "list_all (valid_for ''bob'') [(env1, ''bob'', ''m1''), (env2, ''BOB'', ''m2'')]"
    by (simp add: valid_for_def lower_bob lower_BOB)
  have n: "\<forall>rq \<in> set [Health, Recv (Some (QStr ''ALICE''))]. drains rq \<noteq> Some ''bob''"
    by (simp add: key_ALICE)
  note sends = arrival_order [where q = "Some (QStr ''Bob'')" and k = "''bob''" and st = Map.empty
      and xs = "[(env1, ''bob'', ''m1''), (env2, ''BOB'', ''m2'')]", THEN conjunct2, rule_format]
  note mixed = arrival_order [where q = "Some (QStr ''Bob'')" and k = "''bob''" and st = store1
      and rqs = "[Health, Recv (Some (QStr ''ALICE''))]", THEN conjunct1, rule_format]
  from sends key_Bob v
  have a: "fst (recv (Some (QStr ''Bob''))
            (final [Send env1 (body_of ''bob'' ''m1''), Send env2 (body_of ''BOB'' ''m2'')] Map.empty)) =
       Status200 ''Messages retrieved successfully'' ''bob''
         [View ''17000000001234fzyo82mv'' ''m1'' 1700000000124,
          View ''17000000001234fzyo82mv'' ''m2'' 1700000000125] 2"
    by (simp add: send_of_def view_sent_def mailbox_empty id_env1 id_env2 date_env1 date_env2)
  have s: "sent_to ''bob'' [Health, Recv (Some (QStr ''ALICE''))] = []"
    by (simp add: sent_to_def)
  from mixed key_Bob n
  have b: "fst (recv (Some (QStr ''Bob'')) (final [Health, Recv (Some (QStr ''ALICE''))] store1)) =
       Status200 ''Messages retrieved successfully'' ''bob''
         [View ''17000000001234fzyo82mv'' ''hi'' 1700000000124] 1"
    by (simp add: s mailbox_store1 view_msg1)
  have n1: "drains Health \<noteq> Some ''bob''" by simp
  have n2: "drains (Recv (Some (QStr ''ALICE''))) \<noteq> Some ''bob''" by (simp add: key_ALICE)
  show ?thesis by (intro conjI key_Bob v a n1 n2 b)
qed

text \<open>
  Claim C5. A \<open>/recv\<close> on a key with nothing queued answers 200 with no messages and
  count 0 and leaves the store unchanged; repeating it gives the same answer. The same holds
  right after a drain of that key.
\<close>

theorem empty_receive:
  assumes "recv_key q = Some k"
  shows "(mailbox st k = [] \<longrightarrow>
            recv q st = (Status200 ''No messages found for recipient'' k [] 0, st)
          \<and> recv q (snd (recv q st)) = (Status200 ''No messages found for recipient'' k [] 0, st))
         \<and> recv q (snd (recv q st)) =
             (Status200 ''No messages found for recipient'' k [] 0, snd (recv q st))"
  using assms mailbox_recv [OF assms, of st]
  by (simp add: recv_accepted [OF assms])

theorem empty_receive_witness:
  "recv_key (Some (QStr ''Bob'')) = Some ''bob'' \<and> mailbox Map.empty ''bob'' = []
   \<and> recv (Some (QStr ''Bob'')) Map.empty =
       (Status200 ''No messages found for recipient'' ''bob'' [] 0, Map.empty)
   \<and> recv (Some (QStr ''Bob'')) (snd (recv (Some (QStr ''Bob'')) store1)) =
       (Status200 ''No messages found for recipient'' ''bob'' [] 0,
        snd (recv (Some (QStr ''Bob'')) store1))"
proof -
  have e: "mailbox Map.empty ''bob'' = []" by (rule mailbox_empty)
  from empty_receive [OF key_Bob, of Map.empty, THEN conjunct1, rule_format, OF e]
  have a: "recv (Some (QStr ''Bob'')) Map.empty =
       (Status200 ''No messages found for recipient'' ''bob'' [] 0, Map.empty)"
    by (rule conjunct1)
  note b = empty_receive [OF key_Bob, of store1, THEN conjunct2]
  show ?thesis by (intro conjI key_Bob e a b)
qed

text \<open>
  Claim C6. In every store reached from the empty one, \<open>totalRecipients\<close> is the number of
  keys with a non-empty mailbox; \<open>/health\<close> reports it and returns the store as it was.
  Sending to two distinct keys that have no entry raises it by 2, and draining one of them
  afterwards leaves it raised by 1 (from the empty store: 2, then 1).
\<close>

theorem stats_total_recipients:
  "totalRecipients (final rqs Map.empty) = card {k. mailbox (final rqs Map.empty) k \<noteq> []}
   \<and> health st = (Healthy ''healthy'' ''Message server is running'' [''POST /send'', ''GET /recv'']
        (totalRecipients st), st)
   \<and> (r1 \<noteq> [] \<and> c1 \<noteq> [] \<and> r2 \<noteq> [] \<and> c2 \<noteq> [] \<and> toLowerCase r1 \<noteq> toLowerCase r2
        \<and> toLowerCase r1 \<notin> dom (final rqs Map.empty) \<and> toLowerCase r2 \<notin> dom (final rqs Map.empty)
      \<longrightarrow> totalRecipients (final (rqs @ [Send e1 (body_of r1 c1), Send e2 (body_of r2 c2)]) Map.empty)
            = totalRecipients (final rqs Map.empty) + 2
          \<and> (recv_key q = Some (toLowerCase r1) \<longrightarrow>
              totalRecipients
                (final (rqs @ [Send e1 (body_of r1 c1), Send e2 (body_of r2 c2), Recv q]) Map.empty)
              = totalRecipients (final rqs Map.empty) + 1))"
proof (intro conjI impI)
  show "totalRecipients (final rqs Map.empty) = card {k. mailbox (final rqs Map.empty) k \<noteq> []}"
    by (rule totalRecipients_reachable)
  show "health st = (Healthy ''healthy'' ''Message server is running'' [''POST /send'', ''GET /recv'']
        (totalRecipients st), st)"
    by (simp add: health_def)
next
  assume a: "r1 \<noteq> [] \<and> c1 \<noteq> [] \<and> r2 \<noteq> [] \<and> c2 \<noteq> [] \<and> toLowerCase r1 \<noteq> toLowerCase r2
        \<and> toLowerCase r1 \<notin> dom (final rqs Map.empty) \<and> toLowerCase r2 \<notin> dom (final rqs Map.empty)"
  define st0 where "st0 = final rqs Map.empty"
  have fin: "finite (dom st0)" unfolding st0_def by (rule finite_dom_final) simp
  from a have new: "toLowerCase r1 \<notin> dom st0" "toLowerCase r2 \<notin> dom st0"
    "toLowerCase r2 \<noteq> toLowerCase r1"
    by (auto simp: st0_def)
  have two: "dom (final [Send e1 (body_of r1 c1), Send e2 (body_of r2 c2)] st0) =
        insert (toLowerCase r2) (insert (toLowerCase r1) (dom st0))"
    using a by (simp add: final_Cons final_Nil send_body_of)
  show "totalRecipients (final (rqs @ [Send e1 (body_of r1 c1), Send e2 (body_of r2 c2)]) Map.empty)
            = totalRecipients (final rqs Map.empty) + 2"
    using a fin new two by (simp add: final_append totalRecipients_def st0_def [symmetric])
  assume q: "recv_key q = Some (toLowerCase r1)"
  have "dom (final [Send e1 (body_of r1 c1), Send e2 (body_of r2 c2), Recv q] st0) =
        insert (toLowerCase r2) (dom st0)"
    using a new by (auto simp: final_Cons final_Nil send_body_of recv_accepted [OF q] mailbox_upd)
  then show "totalRecipients
                (final (rqs @ [Send e1 (body_of r1 c1), Send e2 (body_of r2 c2), Recv q]) Map.empty)
              = totalRecipients (final rqs Map.empty) + 1"
    using fin new by (simp add: final_append totalRecipients_def st0_def [symmetric])
qed

theorem stats_total_recipients_witness:
  "toLowerCase ''Alice'' \<noteq> toLowerCase ''bob''
   \<and> recv_key (Some (QStr ''ALICE'')) = Some (toLowerCase ''Alice'')
   \<and> totalRecipients
        (final [Send env1 (body_of ''Alice'' ''hi''), Send env2 (body_of ''bob'' ''yo'')] Map.empty) = 2
   \<and> totalRecipients
        (final [Send env1 (body_of ''Alice'' ''hi''), Send env2 (body_of ''bob'' ''yo''),
                Recv (Some (QStr ''ALICE''))] Map.empty) = 1"
proof -
  have d: "toLowerCase ''Alice'' \<noteq> toLowerCase ''bob''" by (simp add: lower_Alice lower_bob)
  have k: "recv_key (Some (QStr ''ALICE'')) = Some (toLowerCase ''Alice'')"
    by (simp add: key_ALICE lower_Alice)
  have z: "totalRecipients (final [] Map.empty) = 0" "dom (final [] Map.empty) = {}"
    by (simp_all add: totalRecipients_def final_Nil)
  note counted = stats_total_recipients [of "[]" _ "''Alice''" "''hi''" "''bob''" "''yo''" env1 env2
      "Some (QStr ''ALICE'')", THEN conjunct2, THEN conjunct2, rule_format]
  have h: "''Alice'' \<noteq> [] \<and> ''hi'' \<noteq> [] \<and> ''bob'' \<noteq> [] \<and> ''yo'' \<noteq> []
      \<and> toLowerCase ''Alice'' \<noteq> toLowerCase ''bob''
      \<and> toLowerCase ''Alice'' \<notin> dom (final [] Map.empty)
      \<and> toLowerCase ''bob'' \<notin> dom (final [] Map.empty)"
    using d by (simp add: z)
  from counted [OF h, THEN conjunct1]
  have a: "totalRecipients
        (final [Send env1 (body_of ''Alice'' ''hi''), Send env2 (body_of ''bob'' ''yo'')] Map.empty) = 2"
    by (simp add: z)
  from counted [OF h, THEN conjunct2, rule_format, OF k]
  have b: "totalRecipients
        (final [Send env1 (body_of ''Alice'' ''hi''), Send env2 (body_of ''bob'' ''yo''),
                Recv (Some (QStr ''ALICE''))] Map.empty) = 1"
    by (simp add: z)
  show ?thesis by (intro conjI d k a b)
qed

text \<open>
  Claim C7. A \<open>/send\<close> leaves the entry of every key other than its own lower-cased
  recipient unchanged, and a \<open>/recv\<close> leaves the entry of every key it does not reach
  unchanged. In every store reached from the empty one, a message sits in the mailbox of its
  own recipient field only. An accepted message stays in the mailbox of its key as long as no
  request drains that key.
\<close>

theorem recipient_isolation:
  "((\<forall>r. get_prop body ''recipient'' = Some (JStr r) \<longrightarrow> toLowerCase r \<noteq> k2)
      \<longrightarrow> snd (send e body st) k2 = st k2)
   \<and> (recv_key q \<noteq> Some k2 \<longrightarrow> snd (recv q st) k2 = st k2)
   \<and> (\<forall>m \<in> set (mailbox (final rqs Map.empty) k2). recipient m = k2)
   \<and> (r \<noteq> [] \<and> c \<noteq> [] \<and> (\<forall>rq \<in> set rqs'. drains rq \<noteq> Some (toLowerCase r))
      \<longrightarrow> newMessage e r c \<in> set (mailbox (final (Send e (body_of r c) # rqs') st) (toLowerCase r)))"
proof (intro conjI impI)
  assume "\<forall>r. get_prop body ''recipient'' = Some (JStr r) \<longrightarrow> toLowerCase r \<noteq> k2"
  then show "snd (send e body st) k2 = st k2"
    by (auto simp: send_store recipient_newMessage dest!: valid_string_cases
        split: option.splits list.splits if_splits)
next
  assume "recv_key q \<noteq> Some k2"
  then show "snd (recv q st) k2 = st k2"
    using handle_store [of "Recv q" st] by (auto split: option.splits if_splits)
next
  have "filed_by_recipient Map.empty" by (simp add: filed_by_recipient_def)
  then have "filed_by_recipient (final rqs Map.empty)" by (rule filed_by_recipient_final)
  then show "\<forall>m \<in> set (mailbox (final rqs Map.empty) k2). recipient m = k2"
    by (auto dest: filed_by_recipient_mailbox)
next
  assume a: "r \<noteq> [] \<and> c \<noteq> [] \<and> (\<forall>rq \<in> set rqs'. drains rq \<noteq> Some (toLowerCase r))"
  then have "mailbox (final (Send e (body_of r c) # rqs') st) (toLowerCase r) =
      mailbox st (toLowerCase r) @ sent_to (toLowerCase r) (Send e (body_of r c) # rqs')"
    by (intro mailbox_final_no_drain) simp
  with a show "newMessage e r c \<in> set (mailbox (final (Send e (body_of r c) # rqs') st) (toLowerCase r))"
    by (simp add: sent_to_Cons sent_body_of recipient_newMessage del: sent.simps)
qed

theorem recipient_isolation_witness:
  "get_prop (body_of ''Alice'' ''hi'') ''recipient'' = Some (JStr ''Alice'')
   \<and> toLowerCase ''Alice'' \<noteq> ''bob''
   \<and> snd (send env1 (body_of ''Alice'' ''hi'') store1) ''bob'' = store1 ''bob''
   \<and> recv_key (Some (QStr ''ALICE'')) \<noteq> Some ''bob''
   \<and> snd (recv (Some (QStr ''ALICE'')) store1) ''bob'' = store1 ''bob''
   \<and> newMessage env1 ''Bob'' ''hi'' \<in> set (mailbox (final [Send env1 (body_of ''Bob'' ''hi'')] Map.empty) ''bob'')
   \<and> recipient (newMessage env1 ''Bob'' ''hi'') = ''bob''
   \<and> drains Health \<noteq> Some (toLowerCase ''Bob'')
   \<and> newMessage env1 ''Bob'' ''hi''
       \<in> set (mailbox (final (Send env1 (body_of ''Bob'' ''hi'') # [Health]) store1) (toLowerCase ''Bob''))"
proof -
  have h1: "\<forall>r. get_prop (body_of ''Alice'' ''hi'') ''recipient'' = Some (JStr r) \<longrightarrow> toLowerCase r \<noteq> ''bob''"
    by (simp add: get_prop_body_of lower_Alice)
  have h2: "recv_key (Some (QStr ''ALICE'')) \<noteq> Some ''bob''"
    by (simp add: key_ALICE)
  have h4: "''Bob'' \<noteq> [] \<and> ''hi'' \<noteq> [] \<and> (\<forall>rq \<in> set [Health]. drains rq \<noteq> Some (toLowerCase ''Bob''))"
    by simp
  note a = recipient_isolation [of "body_of ''Alice'' ''hi''" "''bob''" env1 store1, THEN conjunct1, THEN mp, OF h1]
  note b = recipient_isolation [of _ "''bob''" _ store1 "Some (QStr ''ALICE'')", THEN conjunct2, THEN conjunct1,
      rule_format, OF h2]
  have m: "newMessage env1 ''Bob'' ''hi''
      \<in> set (mailbox (final [Send env1 (body_of ''Bob'' ''hi'')] Map.empty) ''bob'')"
    by (simp add: final_Cons final_Nil send_body_of mailbox_upd lower_Bob)
  from recipient_isolation [of _ "''bob''" _ _ _ "[Send env1 (body_of ''Bob'' ''hi'')]",
      THEN conjunct2, THEN conjunct2, THEN conjunct1, rule_format, OF m]
  have c: "recipient (newMessage env1 ''Bob'' ''hi'') = ''bob''" .
  note d = recipient_isolation [of _ _ env1 store1 _ _ "''Bob''" "''hi''" "[Health]",
      THEN conjunct2, THEN conjunct2, THEN conjunct2, rule_format, OF h4]
  have g: "get_prop (body_of ''Alice'' ''hi'') ''recipient'' = Some (JStr ''Alice'')"
    by (simp add: get_prop_body_of)
  have l: "toLowerCase ''Alice'' \<noteq> ''bob''" by (simp add: lower_Alice)
  have n: "drains Health \<noteq> Some (toLowerCase ''Bob'')" by simp
  show ?thesis by (intro conjI g l a h2 b m c n d)
qed

text \<open>
  Claim C8, amended. The id that \<open>/send\<close> assigns is the decimal text of the clock reading
  followed by at most nine characters of the base-36 text of the random draw, from its third
  character on. Two sends whose random parts have the same length get the same id exactly
  when their clock readings and their random parts agree; nothing else tells ids apart.
\<close>

theorem message_id_composition:
  "(\<forall>r c. r \<noteq> [] \<and> c \<noteq> [] \<longrightarrow>
      fst (send e (body_of r c) st)
        = Status201 ''Message sent successfully'' (generateMessageId e) (toLowerCase r) (date e))
   \<and> generateMessageId e = toString (now e) @ take 9 (drop 2 (random36 e))
   \<and> (length (substr 2 9 (random36 e)) = length (substr 2 9 (random36 e')) \<longrightarrow>
        (generateMessageId e = generateMessageId e')
          = (now e = now e' \<and> substr 2 9 (random36 e) = substr 2 9 (random36 e')))"
  by (auto simp: send_body_of generateMessageId_def substr_def dest: toString_inj)

theorem message_id_composition_witness:
  "length (substr 2 9 (random36 env1)) = length (substr 2 9 (random36 env3))
   \<and> generateMessageId env1 \<noteq> generateMessageId env3
   \<and> fst (send env1 (body_of ''bob'' ''hi'') Map.empty) =
       Status201 ''Message sent successfully'' (generateMessageId env1) (toLowerCase ''bob'') (date env1)"
proof -
  have l: "length (substr 2 9 (random36 env1)) = length (substr 2 9 (random36 env3))"
    by (simp add: substr_def env1_def env3_def)
  have n: "substr 2 9 (random36 env1) \<noteq> substr 2 9 (random36 env3)"
    by (simp add: substr_def env1_def env3_def)
  from message_id_composition [of env1 _ env3, THEN conjunct2, THEN conjunct2, rule_format, OF l] n
  have a: "generateMessageId env1 \<noteq> generateMessageId env3" by simp
  have "''bob'' \<noteq> [] \<and> ''hi'' \<noteq> []" by simp
  from message_id_composition [of env1 Map.empty, THEN conjunct1, rule_format, OF this]
  have b: "fst (send env1 (body_of ''bob'' ''hi'') Map.empty) =
       Status201 ''Message sent successfully'' (generateMessageId env1) (toLowerCase ''bob'') (date env1)" .
  show ?thesis by (intro conjI l a b)
qed

text \<open>
  Two sends in the same millisecond whose draws differ only after the eleventh character get
  the same id.
\<close>

theorem message_id_collision_counterexample:
  "random36 env1 \<noteq> random36 env2
   \<and> fst (send env1 (body_of ''bob'' ''hi'') Map.empty) =
       Status201 ''Message sent successfully'' ''17000000001234fzyo82mv'' ''bob'' 1700000000124
   \<and> fst (send env2 (body_of ''alice'' ''yo'') (snd (send env1 (body_of ''bob'' ''hi'') Map.empty))) =
       Status201 ''Message sent successfully'' ''17000000001234fzyo82mv'' ''alice'' 1700000000125"
proof -
  have r: "random36 env1 \<noteq> random36 env2" by (simp add: env1_def env2_def)
  have a: "fst (send env1 (body_of ''bob'' ''hi'') Map.empty) =
       Status201 ''Message sent successfully'' ''17000000001234fzyo82mv'' ''bob'' 1700000000124"
    by (simp add: send_body_of id_env1 date_env1 lower_bob)
  have b: "fst (send env2 (body_of ''alice'' ''yo'') (snd (send env1 (body_of ''bob'' ''hi'') Map.empty))) =
       Status201 ''Message sent successfully'' ''17000000001234fzyo82mv'' ''alice'' 1700000000125"
    by (simp add: send_body_of id_env2 date_env2 lower_alice)
  show ?thesis by (intro conjI r a b)
qed

text \<open>
  Claim C9. \<open>/recv\<close> answers 400 to a missing recipient and to the empty string. A recipient
  that is present and no string (the array of a parameter given several times) is never
  rejected: it is joined into one string by commas, that string is lower-cased and looked up
  as the key of a string query would be, and the answer is 200; with nothing queued under the
  key it carries no messages and count 0, and the store stays as it was.
\<close>

theorem recv_query_coercion:
  "recv None st = (Status400 ''Invalid recipient'' ''Recipient parameter is required'', st)
   \<and> recv (Some (QStr [])) st =
       (Status400 ''Invalid recipient'' ''Recipient parameter is required'', st)
   \<and> String (QArr a b cs) = intercalate '','' (a # b # cs)
   \<and> recv (Some (QArr a b cs)) st = recv (Some (QStr (String (QArr a b cs)))) st
   \<and> recv (Some (QArr a b cs)) st =
       (Status200 (if mailbox st (toLowerCase (String (QArr a b cs))) = []
                   then ''No messages found for recipient''
                   else ''Messages retrieved successfully'')
          (toLowerCase (String (QArr a b cs)))
          (map (\<lambda>m. View (mid m) (content m) (timestamp m))
             (mailbox st (toLowerCase (String (QArr a b cs)))))
          (length (mailbox st (toLowerCase (String (QArr a b cs))))),
        if mailbox st (toLowerCase (String (QArr a b cs))) = [] then st
        else st(toLowerCase (String (QArr a b cs)) := None))
   \<and> (mailbox st (toLowerCase (String (QArr a b cs))) = [] \<longrightarrow>
        recv (Some (QArr a b cs)) st =
          (Status200 ''No messages found for recipient'' (toLowerCase (String (QArr a b cs))) [] 0,
           st))"
proof (intro conjI impI)
  show "recv None st = (Status400 ''Invalid recipient'' ''Recipient parameter is required'', st)"
    by (simp add: recv_def)
  show "recv (Some (QStr [])) st =
       (Status400 ''Invalid recipient'' ''Recipient parameter is required'', st)"
    by (simp add: recv_def)
  show "String (QArr a b cs) = intercalate '','' (a # b # cs)"
    by simp
  note k = recv_key_QArr [of a b cs]
  have k': "recv_key (Some (QStr (String (QArr a b cs)))) = Some (toLowerCase (String (QArr a b cs)))"
    using array_not_blank [of a b cs] by (rule recv_key_QStr)
  show "recv (Some (QArr a b cs)) st = recv (Some (QStr (String (QArr a b cs)))) st"
    by (simp only: recv_accepted [OF k] recv_accepted [OF k'])
  show "recv (Some (QArr a b cs)) st =
       (Status200 (if mailbox st (toLowerCase (String (QArr a b cs))) = []
                   then ''No messages found for recipient''
                   else ''Messages retrieved successfully'')
          (toLowerCase (String (QArr a b cs)))
          (map (\<lambda>m. View (mid m) (content m) (timestamp m))
             (mailbox st (toLowerCase (String (QArr a b cs)))))
          (length (mailbox st (toLowerCase (String (QArr a b cs))))),
        if mailbox st (toLowerCase (String (QArr a b cs))) = [] then st
        else st(toLowerCase (String (QArr a b cs)) := None))"
    using recv_accepted [OF k, of st] unfolding view_of_fields .
  show "recv (Some (QArr a b cs)) st =
          (Status200 ''No messages found for recipient'' (toLowerCase (String (QArr a b cs))) [] 0,
           st)"
    if "mailbox st (toLowerCase (String (QArr a b cs))) = []"
    using that by (simp only: recv_accepted [OF k]) simp
qed

theorem recv_query_coercion_witness:
  "mailbox Map.empty (toLowerCase (String (QArr ''Bob'' ''x'' []))) = []
   \<and> toLowerCase (String (QArr ''Bob'' ''x'' [])) = ''bob,x''
   \<and> recv (Some (QArr ''Bob'' ''x'' [])) Map.empty =
       (Status200 ''No messages found for recipient'' ''bob,x'' [] 0, Map.empty)"
proof -
  have e: "mailbox Map.empty (toLowerCase (String (QArr ''Bob'' ''x'' []))) = []"
    by (rule mailbox_empty)
  have l: "toLowerCase (String (QArr ''Bob'' ''x'' [])) = ''bob,x''" by code_simp
  note found = recv_query_coercion [of Map.empty "''Bob''" "''x''" "[]"]
  from found [THEN conjunct2, THEN conjunct2, THEN conjunct2, THEN conjunct2, THEN conjunct2,
      THEN mp, OF e]
  have a: "recv (Some (QArr ''Bob'' ''x'' [])) Map.empty =
       (Status200 ''No messages found for recipient'' ''bob,x'' [] 0, Map.empty)"
    by (simp only: l)
  show ?thesis by (intro conjI e l a)
qed

text \<open>
  Claim C10. No store reached from the empty one holds an empty mailbox entry, every request
  keeps it so, and therefore the size of the map is the number of keys with at least one
  queued message.
\<close>

theorem store_entries_nonempty:
  "nonempty_entries (final rqs Map.empty)
   \<and> (nonempty_entries st \<longrightarrow> nonempty_entries (snd (handle rq st)))
   \<and> totalRecipients (final rqs Map.empty) = card {k. mailbox (final rqs Map.empty) k \<noteq> []}"
proof (intro conjI impI)
  have "nonempty_entries Map.empty" by (simp add: nonempty_entries_def)
  then show "nonempty_entries (final rqs Map.empty)" by (rule nonempty_entries_final)
  show "nonempty_entries (snd (handle rq st))" if "nonempty_entries st"
    using that by (rule nonempty_entries_handle)
  show "totalRecipients (final rqs Map.empty) = card {k. mailbox (final rqs Map.empty) k \<noteq> []}"
    by (rule totalRecipients_reachable)
qed

theorem store_entries_nonempty_witness:
  "final [Send env1 (body_of ''Bob'' ''hi'')] Map.empty ''bob'' = Some [newMessage env1 ''Bob'' ''hi'']
   \<and> nonempty_entries (final [Send env1 (body_of ''Bob'' ''hi'')] Map.empty)
   \<and> [newMessage env1 ''Bob'' ''hi''] \<noteq> []
   \<and> nonempty_entries store1
   \<and> nonempty_entries (snd (handle (Recv (Some (QStr ''Bob''))) store1))"
proof -
  have f: "final [Send env1 (body_of ''Bob'' ''hi'')] Map.empty ''bob'' = Some [newMessage env1 ''Bob'' ''hi'']"
    by (simp add: final_Cons final_Nil send_body_of mailbox_empty lower_Bob)
  note inv = store_entries_nonempty [of "[Send env1 (body_of ''Bob'' ''hi'')]" store1 "Recv (Some (QStr ''Bob''))"]
  note a = inv [THEN conjunct1]
  from a f have b: "[newMessage env1 ''Bob'' ''hi''] \<noteq> []"
    unfolding nonempty_entries_def by blast
  have s: "nonempty_entries store1" by (simp add: nonempty_entries_def store1_def)
  note c = inv [THEN conjunct2, THEN conjunct1, rule_format, OF s]
  show ?thesis by (intro conjI f a b s c)
qed

end
